theory Spec2Isabelle
  imports Main "HOL-Library.Sublist" "HOL-Library.Multiset"
begin

section \<open>Data model of the master controller\<close>

text \<open>
  The development follows \<^verbatim>\<open>src/v1.1/master_controller.py\<close> (class
  \<^verbatim>\<open>MasterController\<close>) and \<^verbatim>\<open>src/agent_template.py\<close> (class \<^verbatim>\<open>Agent\<close>).

  Python values that occur inside a task's \<^verbatim>\<open>details\<close> dictionary: a \<^verbatim>\<open>str\<close>, or any
  other value, of which only its \<^verbatim>\<open>str()\<close> rendering is kept (an f-string needs it).
  A \<^verbatim>\<open>details\<close> dictionary is an association list; lookup takes the first binding.
\<close>

datatype pyval = PStr string | PNonStr string

type_synonym details = "(string \<times> pyval) list"

text \<open>The string constants the code stores under \<^verbatim>\<open>'status'\<close> and in \<^verbatim>\<open>Agent.state\<close>.\<close>

datatype task_status = Pending | Running | Completed | Cancelled | Error

datatype agent_state = Idle | ARunning | Finished | AError | ACancelled | Stopped

text \<open>
  The task dictionary built by \<^verbatim>\<open>assign_task\<close>; the key \<^verbatim>\<open>'error'\<close> is only added by
  \<^verbatim>\<open>_run_agent_task\<close>.
\<close>

record task =
  task_id :: string
  details :: details
  status :: task_status
  retry_count :: int
  error :: "string option"

text \<open>The class constructed by \<^verbatim>\<open>_create_agent\<close>.\<close>

datatype agent_class = BrowserAgent | ToolCreatorAgent | ToolExecutorAgent | InfoHunterAgent | Agent

record agent =
  agent_id :: string
  agent_class :: agent_class
  state :: agent_state
  current_task :: "details option"
  task_meta_for_callback :: "task option"

text \<open>Exceptions that cross function boundaries in the modelled code.\<close>

datatype exn = CancelledError | AttributeError | Exception string

text \<open>
  What \<^verbatim>\<open>await self.process_task(task_details)\<close> does, as seen by \<^verbatim>\<open>receive_task\<close>: it
  returns a result (possibly \<^verbatim>\<open>None\<close>), raises an ordinary exception, or is cancelled.
\<close>

datatype outcome = Returns "string option" | Raises string | CancelledIn

text \<open>
  A dispatched unit: the \<^verbatim>\<open>asyncio.Task\<close> wrapping \<^verbatim>\<open>_run_agent_task(agent, task)\<close>.
  \<^verbatim>\<open>run\<close> creates exactly one unit for each agent object it obtains, so a unit lives at
  the address of the agent object its coroutine holds; \<^verbatim>\<open>u_task\<close> is its
  \<^verbatim>\<open>task_with_meta\<close>.
\<close>

datatype unit_phase = Created | Started | Done "exn option"

record unit_rec =
  u_task :: task
  u_phase :: unit_phase
  cancel_requested :: bool
  callback_ran :: bool

text \<open>Log records of the controller that the claims refer to.\<close>

datatype log_entry =
    LogAssigned string
  | LogRequeued string int
  | LogLimitReached
  | LogRetrying string string int
  | LogGivingUp string string
  | LogUnmapped

text \<open>
  Where a \<^verbatim>\<open>shutdown()\<close> coroutine is suspended: in the \<^verbatim>\<open>gather\<close> over the units
  it found in \<^verbatim>\<open>active_tasks\<close> (line 291), or in the one over the browser clean-ups
  (line 306).
\<close>

datatype shutdown_phase = AwaitingUnits "nat list" | AwaitingBrowsers

text \<open>
  The configuration values read in \<^verbatim>\<open>__init__\<close>, and the values successive calls of
  \<^verbatim>\<open>str(uuid.uuid4())\<close> return (the \<open>n\<close>-th call returns \<open>uuid4 n\<close>).
\<close>

record config =
  cfg_max_concurrent_agents :: "int option"
  cfg_max_task_retries :: "int option"
  uuid4 :: "nat \<Rightarrow> string"

definition max_concurrent_agents :: "'a config_scheme \<Rightarrow> int" where
  "max_concurrent_agents c = (case cfg_max_concurrent_agents c of None \<Rightarrow> 5 | Some n \<Rightarrow> n)"

definition max_task_retries :: "'a config_scheme \<Rightarrow> int" where
  "max_task_retries c = (case cfg_max_task_retries c of None \<Rightarrow> 1 | Some n \<Rightarrow> n)"

text \<open>
  The controller object. The dictionaries \<^verbatim>\<open>agents\<close> and \<^verbatim>\<open>active_tasks\<close> map an agent
  id to an object; objects are addresses into the stores \<open>agent_objs\<close> and \<open>units\<close>
  (dictionaries from addresses to objects), because an agent object stays reachable
  from its unit after it has left the registry. \<open>next_addr\<close> is the next free address.
\<close>

record controller =
  task_queue :: "task list"
  agents :: "(string \<times> nat) list"
  active_tasks :: "(string \<times> nat) list"
  completed_tasks_history :: "(string \<times> task) list"
  running :: bool
  uuid_calls :: nat
  agent_objs :: "(nat \<times> agent) list"
  units :: "(nat \<times> unit_rec) list"
  next_addr :: nat
  log :: "log_entry list"
  suspended_shutdowns :: "shutdown_phase list"

definition init :: controller where
  "init = \<lparr> task_queue = [], agents = [], active_tasks = [], completed_tasks_history = [],
            running = False, uuid_calls = 0, agent_objs = [], units = [],
            next_addr = 0, log = [], suspended_shutdowns = [] \<rparr>"

subsection \<open>Python dictionaries and the bounded deque\<close>

text \<open>\<^verbatim>\<open>d[k] = v\<close>: an existing key keeps its position, a new key goes last.\<close>

fun dict_set :: "'k \<Rightarrow> 'v \<Rightarrow> ('k \<times> 'v) list \<Rightarrow> ('k \<times> 'v) list" where
  "dict_set k v [] = [(k, v)]"
| "dict_set k v (p # d) = (if fst p = k then (k, v) # d else p # dict_set k v d)"

text \<open>\<^verbatim>\<open>del d[k]\<close>, only ever executed under \<^verbatim>\<open>if k in d\<close>.\<close>

fun dict_del :: "'k \<Rightarrow> ('k \<times> 'v) list \<Rightarrow> ('k \<times> 'v) list" where
  "dict_del k [] = []"
| "dict_del k (p # d) = (if fst p = k then d else p # dict_del k d)"

definition dict_get :: "('k \<times> 'v) list \<Rightarrow> 'k \<Rightarrow> 'v option" where
  "dict_get d k = map_of d k"

definition dict_has :: "'k \<Rightarrow> ('k \<times> 'v) list \<Rightarrow> bool" where
  "dict_has k d = (map_of d k \<noteq> None)"

text \<open>
  \<^verbatim>\<open>collections.deque(maxlen=50).append(x)\<close>: when the deque is full, the item at the
  left end is discarded before \<open>x\<close> is added on the right.
\<close>

definition history_maxlen :: nat where
  "history_maxlen = 50"

definition deque_append :: "nat \<Rightarrow> 'a list \<Rightarrow> 'a \<Rightarrow> 'a list" where
  "deque_append maxlen d x =
     (if maxlen = 0 then d
      else if length d \<ge> maxlen then tl d @ [x]
      else d @ [x])"

subsection \<open>\<^verbatim>\<open>assign_task\<close>\<close>

definition assign_task :: "'a config_scheme \<Rightarrow> details \<Rightarrow> int \<Rightarrow> controller \<Rightarrow> string \<times> controller" where
  "assign_task c task_details rc s =
     (let tid = uuid4 c (uuid_calls s);
          t = \<lparr> task_id = tid, details = task_details, status = Pending,
                retry_count = rc, error = None \<rparr>
      in if rc > 0
         then (tid, s\<lparr> uuid_calls := Suc (uuid_calls s),
                       task_queue := t # task_queue s,
                       log := log s @ [LogRequeued tid rc] \<rparr>)
         else (tid, s\<lparr> uuid_calls := Suc (uuid_calls s),
                       task_queue := task_queue s @ [t],
                       log := log s @ [LogAssigned tid] \<rparr>))"

subsection \<open>\<^verbatim>\<open>_create_agent\<close>\<close>

text \<open>
  \<^verbatim>\<open>str.lower()\<close> on the ASCII letters; every other character is kept. The four keywords
  tested below are ASCII, and no non-ASCII lower-casing yields one of their letters in
  sequence, so the test \<^verbatim>\<open>kw in s.lower()\<close> agrees with this model.
\<close>

definition lower_char :: "char \<Rightarrow> char" where
  "lower_char ch = (let n = (of_char ch :: nat) in if 65 \<le> n \<and> n \<le> 90 then char_of (n + 32) else ch)"

definition lower :: "string \<Rightarrow> string" where
  "lower s = map lower_char s"

text \<open>\<^verbatim>\<open>kw in v.lower()\<close>; a value without that method raises \<^verbatim>\<open>AttributeError\<close>.\<close>

definition in_lower :: "string \<Rightarrow> pyval \<Rightarrow> exn + bool" where
  "in_lower kw v = (case v of PStr s \<Rightarrow> Inr (sublist kw (lower s)) | PNonStr _ \<Rightarrow> Inl AttributeError)"

text \<open>\<^verbatim>\<open>k1 in v.lower() or k2 in v.lower() or ...\<close>, stopping at the first hit.\<close>

fun any_in_lower :: "string list \<Rightarrow> pyval \<Rightarrow> exn + bool" where
  "any_in_lower [] v = Inr False"
| "any_in_lower (kw # kws) v =
     (case in_lower kw v of
        Inl e \<Rightarrow> Inl e
      | Inr True \<Rightarrow> Inr True
      | Inr False \<Rightarrow> any_in_lower kws v)"

definition py_str :: "pyval \<Rightarrow> string" where
  "py_str v = (case v of PStr s \<Rightarrow> s | PNonStr r \<Rightarrow> r)"

text \<open>
  Lines 96--105: the routing conditions, evaluated left to right with Python's
  short-circuit \<^verbatim>\<open>and\<close>/\<^verbatim>\<open>or\<close>. \<open>description_has kws\<close> is the condition
  \<^verbatim>\<open>'description' in task_info and (k1 in task_info['description'].lower() or ...)\<close>.
\<close>

definition description_has :: "string list \<Rightarrow> details \<Rightarrow> exn + bool" where
  "description_has kws task_info =
     (case dict_get task_info ''description'' of
        None \<Rightarrow> Inr False
      | Some d \<Rightarrow> any_in_lower kws d)"

definition effective_agent_type :: "pyval \<Rightarrow> details \<Rightarrow> exn + pyval" where
  "effective_agent_type agent_type task_info =
     (if agent_type = PStr ''default'' then
        if dict_has ''url'' task_info then Inr (PStr ''browser'')
        else
          (case description_has [''create''] task_info of
             Inl e \<Rightarrow> Inl e
           | Inr True \<Rightarrow> Inr (PStr ''tool_creator'')
           | Inr False \<Rightarrow>
               if dict_has ''code'' task_info \<or> dict_has ''code_key'' task_info
               then Inr (PStr ''tool_executor'')
               else
                 (case description_has [''find'', ''research'', ''gather''] task_info of
                    Inl e \<Rightarrow> Inl e
                  | Inr True \<Rightarrow> Inr (PStr ''info_hunter'')
                  | Inr False \<Rightarrow> Inr agent_type))
      else Inr agent_type)"

text \<open>Lines 110--124: the class instantiated for an effective type.\<close>

definition class_for :: "pyval \<Rightarrow> agent_class" where
  "class_for t =
     (if t = PStr ''browser'' then BrowserAgent
      else if t = PStr ''tool_creator'' then ToolCreatorAgent
      else if t = PStr ''tool_executor'' then ToolExecutorAgent
      else if t = PStr ''info_hunter'' then InfoHunterAgent
      else Agent)"

text \<open>\<^verbatim>\<open>Agent.__init__\<close>; the subclasses add no field the controller reads.\<close>

definition new_agent :: "string \<Rightarrow> agent_class \<Rightarrow> agent" where
  "new_agent aid cl = \<lparr> agent_id = aid, agent_class = cl, state = Idle,
                        current_task = None, task_meta_for_callback = None \<rparr>"

text \<open>
  \<^verbatim>\<open>_create_agent\<close>. The body runs under \<^verbatim>\<open>agent_creation_lock\<close> and contains no
  suspension point, so it is one atomic step. The result is the exception raised, or
  \<^verbatim>\<open>None\<close>, or the new agent (its address and its id). An agent object is truthy, so the
  branch of line 130 is never taken and is left out.
\<close>

definition create_agent ::
  "'a config_scheme \<Rightarrow> pyval \<Rightarrow> details \<Rightarrow> controller \<Rightarrow> (exn + (nat \<times> string) option) \<times> controller" where
  "create_agent c agent_type task_details s =
     (if int (length (agents s)) \<ge> max_concurrent_agents c
      then (Inr None, s\<lparr> log := log s @ [LogLimitReached] \<rparr>)
      else
        let aid = py_str agent_type @ ''-'' @ take 8 (uuid4 c (uuid_calls s));
            s1 = s\<lparr> uuid_calls := Suc (uuid_calls s) \<rparr>
        in case effective_agent_type agent_type task_details of
             Inl e \<Rightarrow> (Inl e, s1)
           | Inr eff \<Rightarrow>
               let a = next_addr s1
               in (Inr (Some (a, aid)),
                   s1\<lparr> agent_objs := dict_set a (new_agent aid (class_for eff)) (agent_objs s1),
                       next_addr := Suc a,
                       agents := dict_set aid a (agents s1) \<rparr>))"

subsection \<open>The launch loop of \<^verbatim>\<open>run\<close>\<close>

text \<open>Line 142: the condition of the inner \<^verbatim>\<open>while\<close>.\<close>

definition can_launch :: "'a config_scheme \<Rightarrow> controller \<Rightarrow> bool" where
  "can_launch c s = (task_queue s \<noteq> [] \<and> int (length (active_tasks s)) < max_concurrent_agents c)"

definition new_unit :: "task \<Rightarrow> unit_rec" where
  "new_unit t = \<lparr> u_task = t, u_phase = Created, cancel_requested = False, callback_ran = False \<rparr>"

text \<open>
  Lines 143--174: one pass through the body of the inner \<^verbatim>\<open>while\<close>. With the lock
  free, \<^verbatim>\<open>await self._create_agent(...)\<close> does not suspend, so the pass is atomic.
  The first component is the exception that leaves the loop, if any. The coroutine of
  the new unit has not run yet when line 162 sets the status, so the unit is created
  with that status.
\<close>

definition launch_one :: "'a config_scheme \<Rightarrow> controller \<Rightarrow> exn option \<times> controller" where
  "launch_one c s =
     (case task_queue s of
        [] \<Rightarrow> (None, s)
      | t # q \<Rightarrow>
          let s1 = s\<lparr> task_queue := q \<rparr>;
              agent_type_hint = (case dict_get (details t) ''agent_type'' of
                                   None \<Rightarrow> PStr ''default'' | Some v \<Rightarrow> v)
          in (case create_agent c agent_type_hint (details t) s1 of
                (Inl e, s2) \<Rightarrow> (Some e, s2)
              | (Inr (Some (a, aid)), s2) \<Rightarrow>
                  (None, s2\<lparr> units := dict_set a (new_unit (t\<lparr> status := Running \<rparr>)) (units s2),
                             active_tasks := dict_set aid a (active_tasks s2) \<rparr>)
              | (Inr None, s2) \<Rightarrow>
                  (None, snd (assign_task c (details t) (retry_count t) s2))))"

text \<open>
  Lines 142--174: the inner \<^verbatim>\<open>while\<close>. It need not terminate, so it runs on fuel;
  \<open>None\<close> means the fuel ran out before the loop was left.
\<close>

fun launch_loop :: "nat \<Rightarrow> 'a config_scheme \<Rightarrow> controller \<Rightarrow> (exn option \<times> controller) option" where
  "launch_loop 0 c s = None"
| "launch_loop (Suc n) c s =
     (if can_launch c s
      then (case launch_one c s of
              (Some e, s') \<Rightarrow> Some (Some e, s')
            | (None, s') \<Rightarrow> launch_loop n c s')
      else Some (None, s))"

subsection \<open>\<^verbatim>\<open>Agent.receive_task\<close> and \<^verbatim>\<open>_run_agent_task\<close>\<close>

text \<open>
  \<^verbatim>\<open>agent_template.py\<close> lines 23--30 and \<^verbatim>\<open>master_controller.py\<close> lines 207--213: the
  coroutine runs up to the suspension inside \<^verbatim>\<open>process_task\<close>.
\<close>

definition receive_task_begin :: "details \<Rightarrow> agent \<Rightarrow> agent" where
  "receive_task_begin task_details ag = ag\<lparr> current_task := Some task_details, state := ARunning \<rparr>"

text \<open>
  \<^verbatim>\<open>agent_template.py\<close> lines 31--52: what follows the \<^verbatim>\<open>await\<close>. The result is the
  exception \<^verbatim>\<open>receive_task\<close> raises, if any. \<^verbatim>\<open>report_back\<close> only writes to the memory
  collaborator, whose \<^verbatim>\<open>store\<close> catches its own errors (\<^verbatim>\<open>src/v1.1/memory.py\<close>), and
  does not suspend.
\<close>

definition receive_task_end :: "outcome \<Rightarrow> agent \<Rightarrow> exn option \<times> agent" where
  "receive_task_end oc ag =
     (case oc of
        Returns r \<Rightarrow> (None, ag\<lparr> state := Finished, current_task := None \<rparr>)
      | CancelledIn \<Rightarrow> (Some CancelledError, ag\<lparr> state := ACancelled, current_task := None \<rparr>)
      | Raises msg \<Rightarrow> (None, ag\<lparr> state := AError, current_task := None \<rparr>))"

text \<open>\<^verbatim>\<open>receive_agent_update\<close>, lines 313--322.\<close>

definition receive_agent_update :: "string \<Rightarrow> agent_state \<Rightarrow> controller \<Rightarrow> controller" where
  "receive_agent_update aid st s =
     (case dict_get (agents s) aid of
        None \<Rightarrow> s
      | Some a \<Rightarrow>
          (case dict_get (agent_objs s) a of
             None \<Rightarrow> s
           | Some ag \<Rightarrow> s\<lparr> agent_objs := dict_set a (ag\<lparr> state := st \<rparr>) (agent_objs s) \<rparr>))"

text \<open>Lines 214--223: the status the wrapper stores, and what it raises in turn.\<close>

definition wrapper_result :: "exn option \<Rightarrow> task \<Rightarrow> exn option \<times> task" where
  "wrapper_result r t =
     (case r of
        None \<Rightarrow> (None, t\<lparr> status := Completed \<rparr>)
      | Some CancelledError \<Rightarrow> (Some CancelledError, t\<lparr> status := Cancelled \<rparr>)
      | Some AttributeError \<Rightarrow> (None, t\<lparr> status := Error, error := Some ''AttributeError'' \<rparr>)
      | Some (Exception msg) \<Rightarrow> (None, t\<lparr> status := Error, error := Some msg \<rparr>))"

text \<open>
  The first step of the unit at address \<open>u\<close>, lines 207--213. The attribute
  \<^verbatim>\<open>_task_meta_for_callback\<close> refers to the unit's own task dictionary.
\<close>

definition run_agent_task_begin :: "nat \<Rightarrow> controller \<Rightarrow> controller" where
  "run_agent_task_begin u s =
     (case (dict_get (units s) u, dict_get (agent_objs s) u) of
        (Some ur, Some ag) \<Rightarrow>
          s\<lparr> agent_objs := dict_set u
                 (receive_task_begin (details (u_task ur))
                    (ag\<lparr> task_meta_for_callback := Some (u_task ur) \<rparr>))
                 (agent_objs s),
             units := dict_set u (ur\<lparr> u_phase := Started \<rparr>) (units s) \<rparr>
      | _ \<Rightarrow> s)"

text \<open>
  The last step of the unit at address \<open>u\<close>, lines 213--228, none of which suspends.
  The attribute and the history entry refer to the dictionary whose status is set
  here, so the attribute, when still present, shows the new status.
\<close>

definition run_agent_task_end :: "nat \<Rightarrow> outcome \<Rightarrow> controller \<Rightarrow> controller" where
  "run_agent_task_end u oc s =
     (case (dict_get (units s) u, dict_get (agent_objs s) u) of
        (Some ur, Some ag) \<Rightarrow>
          let (r, ag1) = receive_task_end oc ag;
              (res, t) = wrapper_result r (u_task ur);
              ag2 = ag1\<lparr> task_meta_for_callback := map_option (\<lambda>_. t) (task_meta_for_callback ag1) \<rparr>;
              s1 = s\<lparr> agent_objs := dict_set u ag2 (agent_objs s) \<rparr>;
              s2 = receive_agent_update (agent_id ag2) (state ag2) s1;
              s3 = s2\<lparr> completed_tasks_history :=
                         deque_append history_maxlen (completed_tasks_history s2) (task_id t, t) \<rparr>
          in s3\<lparr> units := dict_set u (ur\<lparr> u_task := t, u_phase := Done res \<rparr>) (units s3) \<rparr>
      | _ \<Rightarrow> s)"

text \<open>
  A unit cancelled before its first step: asyncio throws \<^verbatim>\<open>CancelledError\<close> into the
  coroutine before any line of \<^verbatim>\<open>_run_agent_task\<close> has run.
\<close>

definition cancel_unstarted :: "nat \<Rightarrow> controller \<Rightarrow> controller" where
  "cancel_unstarted u s =
     (case dict_get (units s) u of
        Some ur \<Rightarrow> s\<lparr> units := dict_set u (ur\<lparr> u_phase := Done (Some CancelledError) \<rparr>) (units s) \<rparr>
      | None \<Rightarrow> s)"

subsection \<open>\<^verbatim>\<open>_handle_task_completion\<close>\<close>

text \<open>Lines 257--262.\<close>

definition retry_logic :: "'a config_scheme \<Rightarrow> string \<Rightarrow> task \<Rightarrow> controller \<Rightarrow> controller" where
  "retry_logic c aid original_task_meta s =
     (let current_retry = retry_count original_task_meta
      in if current_retry < max_task_retries c
         then snd (assign_task c (details original_task_meta) (current_retry + 1)
                     (s\<lparr> log := log s @ [LogRetrying (task_id original_task_meta) aid (current_retry + 1)] \<rparr>))
         else s\<lparr> log := log s @ [LogGivingUp (task_id original_task_meta) aid] \<rparr>)"

text \<open>Lines 238--248: the first key of \<^verbatim>\<open>active_tasks\<close> whose value is the finished unit.\<close>

definition find_agent_id :: "nat \<Rightarrow> (string \<times> nat) list \<Rightarrow> string option" where
  "find_agent_id u d = map_option fst (find (\<lambda>p. snd p = u) d)"

definition registered_agent :: "controller \<Rightarrow> string \<Rightarrow> (nat \<times> agent) option" where
  "registered_agent s aid =
     (case dict_get (agents s) aid of
        None \<Rightarrow> None
      | Some a \<Rightarrow> (case dict_get (agent_objs s) a of None \<Rightarrow> None | Some ag \<Rightarrow> Some (a, ag)))"

text \<open>
  Lines 231--272, for the finished unit \<open>u\<close>. Lines 274--277 only log; for a cancelled
  unit \<^verbatim>\<open>task.exception()\<close> raises inside the callback, after all the updates below.
\<close>

definition handle_task_completion :: "'a config_scheme \<Rightarrow> nat \<Rightarrow> controller \<Rightarrow> controller" where
  "handle_task_completion c u s =
     (case find_agent_id u (active_tasks s) of
        None \<Rightarrow> s\<lparr> log := log s @ [LogUnmapped] \<rparr>
      | Some aid \<Rightarrow>
          if aid = [] then s\<lparr> log := log s @ [LogUnmapped] \<rparr>
          else
            let original_task_meta =
                  (case registered_agent s aid of
                     None \<Rightarrow> None | Some (a, ag) \<Rightarrow> task_meta_for_callback ag);
                s1 = s\<lparr> active_tasks := dict_del aid (active_tasks s) \<rparr>
            in (case registered_agent s1 aid of
                  None \<Rightarrow> s1
                | Some (a, agent_instance) \<Rightarrow>
                    let s2 = (case original_task_meta of
                                Some m \<Rightarrow> if state agent_instance = AError
                                           then retry_logic c aid m s1 else s1
                              | None \<Rightarrow> s1)
                    in s2\<lparr> agent_objs :=
                             dict_set a (agent_instance\<lparr> task_meta_for_callback := None \<rparr>)
                               (agent_objs s2) \<rparr>))"

subsection \<open>\<^verbatim>\<open>shutdown\<close>\<close>

text \<open>Line 287--288: \<^verbatim>\<open>if not task.done(): task.cancel()\<close>.\<close>

definition request_cancel :: "unit_rec \<Rightarrow> unit_rec" where
  "request_cancel ur = (case u_phase ur of Done r \<Rightarrow> ur | _ \<Rightarrow> ur\<lparr> cancel_requested := True \<rparr>)"

text \<open>\<^verbatim>\<open>Agent.stop\<close>.\<close>

definition stop :: "agent \<Rightarrow> agent" where
  "stop ag = ag\<lparr> state := Stopped \<rparr>"

text \<open>The objects at the given addresses are changed by \<open>f\<close>, the others are kept.\<close>

definition update_at :: "nat list \<Rightarrow> ('a \<Rightarrow> 'a) \<Rightarrow> (nat \<times> 'a) list \<Rightarrow> (nat \<times> 'a) list" where
  "update_at addrs f h = map (\<lambda>p. if fst p \<in> set addrs then (fst p, f (snd p)) else p) h"

text \<open>Lines 309--311.\<close>

definition shutdown_finish :: "controller \<Rightarrow> controller" where
  "shutdown_finish s = s\<lparr> agents := [], task_queue := [] \<rparr>"

text \<open>
  Lines 295--311: every registered agent is stopped; when one of them has a
  \<^verbatim>\<open>shutdown_browser\<close> method (the browser agents), the coroutine suspends in the
  second \<^verbatim>\<open>gather\<close>.
\<close>

definition has_shutdown_browser :: "controller \<Rightarrow> nat \<Rightarrow> bool" where
  "has_shutdown_browser s a =
     (case dict_get (agent_objs s) a of None \<Rightarrow> False | Some ag \<Rightarrow> agent_class ag = BrowserAgent)"

definition shutdown_agents :: "controller \<Rightarrow> controller" where
  "shutdown_agents s =
     (let addrs = map snd (agents s);
          s1 = s\<lparr> agent_objs := update_at addrs stop (agent_objs s) \<rparr>
      in if list_ex (has_shutdown_browser s) addrs
         then s1\<lparr> suspended_shutdowns := suspended_shutdowns s1 @ [AwaitingBrowsers] \<rparr>
         else shutdown_finish s1)"

text \<open>Lines 292--293 and on: the first \<^verbatim>\<open>gather\<close> has returned.\<close>

definition shutdown_after_units :: "controller \<Rightarrow> controller" where
  "shutdown_after_units s = shutdown_agents (s\<lparr> active_tasks := [] \<rparr>)"

text \<open>Lines 280--291: up to the first point where \<^verbatim>\<open>shutdown\<close> can suspend.\<close>

definition shutdown_begin :: "controller \<Rightarrow> controller" where
  "shutdown_begin s =
     (let s1 = s\<lparr> running := False \<rparr>
      in if active_tasks s1 \<noteq> []
         then
           let us = map snd (active_tasks s1)
           in s1\<lparr> units := update_at us request_cancel (units s1),
                   suspended_shutdowns := suspended_shutdowns s1 @ [AwaitingUnits us] \<rparr>
         else shutdown_agents s1)"

text \<open>
  The \<^verbatim>\<open>gather\<close> of line 291 returns once every unit it waits for is done; its own
  done-callbacks were added after \<^verbatim>\<open>_handle_task_completion\<close>, so that has run too.
\<close>

definition unit_settled :: "controller \<Rightarrow> nat \<Rightarrow> bool" where
  "unit_settled s u =
     (case dict_get (units s) u of
        None \<Rightarrow> False
      | Some ur \<Rightarrow> (case u_phase ur of Done r \<Rightarrow> callback_ran ur | _ \<Rightarrow> False))"

definition remove_nth :: "nat \<Rightarrow> 'a list \<Rightarrow> 'a list" where
  "remove_nth i xs = take i xs @ drop (Suc i) xs"

definition shutdown_resume :: "nat \<Rightarrow> controller \<Rightarrow> controller" where
  "shutdown_resume i s =
     (if i < length (suspended_shutdowns s)
      then (case suspended_shutdowns s ! i of
              AwaitingUnits us \<Rightarrow>
                if list_all (unit_settled s) us
                then shutdown_after_units
                       (s\<lparr> suspended_shutdowns := remove_nth i (suspended_shutdowns s) \<rparr>)
                else s
            | AwaitingBrowsers \<Rightarrow>
                shutdown_finish (s\<lparr> suspended_shutdowns := remove_nth i (suspended_shutdowns s) \<rparr>))
      else s)"

section \<open>The controller as a transition system\<close>

text \<open>
  asyncio runs the controller on one thread; control changes hands only at an
  \<^verbatim>\<open>await\<close> that suspends. An event is one maximal piece of code that runs without
  suspending:
  \<^item> \<open>Assign\<close>: a call of \<^verbatim>\<open>assign_task\<close> by a client;
  \<^item> \<open>RunBegin\<close>: lines 135--137 of \<^verbatim>\<open>run\<close>;
  \<^item> \<open>Launch\<close>: one pass of the inner \<^verbatim>\<open>while\<close> of \<^verbatim>\<open>run\<close>; an exception raised there
    reaches the handler of line 199, which calls \<^verbatim>\<open>shutdown\<close>;
  \<^item> \<open>UnitBegin\<close>, \<open>UnitEnd\<close>: the two steps of a unit, before and after the suspension
    in \<^verbatim>\<open>process_task\<close>; a unit cancelled before its first step never runs its body;
    a started unit is cancelled exactly when a cancellation was requested;
  \<^item> \<open>Callback\<close>: the done-callback of a finished unit, called once;
  \<^item> \<open>Shutdown\<close>: a call of \<^verbatim>\<open>shutdown\<close>, up to its first suspension;
  \<^item> \<open>ShutdownResume\<close>: a suspended \<^verbatim>\<open>shutdown\<close> continues.
  An event that is not enabled leaves the state as it is. The events may occur in any
  order, which covers every schedule of the event loop.
\<close>

datatype event =
    Assign details int
  | RunBegin
  | Launch
  | UnitBegin nat
  | UnitEnd nat outcome
  | Callback nat
  | Shutdown
  | ShutdownResume nat

definition unit_begin :: "nat \<Rightarrow> controller \<Rightarrow> controller" where
  "unit_begin u s =
     (case dict_get (units s) u of
        None \<Rightarrow> s
      | Some ur \<Rightarrow>
          if u_phase ur = Created
          then (if cancel_requested ur then cancel_unstarted u s else run_agent_task_begin u s)
          else s)"

definition unit_end :: "nat \<Rightarrow> outcome \<Rightarrow> controller \<Rightarrow> controller" where
  "unit_end u oc s =
     (case dict_get (units s) u of
        None \<Rightarrow> s
      | Some ur \<Rightarrow>
          if u_phase ur = Started \<and> ((oc = CancelledIn) = cancel_requested ur)
          then run_agent_task_end u oc s
          else s)"

definition callback :: "'a config_scheme \<Rightarrow> nat \<Rightarrow> controller \<Rightarrow> controller" where
  "callback c u s =
     (case dict_get (units s) u of
        None \<Rightarrow> s
      | Some ur \<Rightarrow>
          (case u_phase ur of
             Done r \<Rightarrow>
               if callback_ran ur then s
               else (let s1 = handle_task_completion c u s
                     in s1\<lparr> units := dict_set u (ur\<lparr> callback_ran := True \<rparr>) (units s1) \<rparr>)
           | _ \<Rightarrow> s))"

definition launch :: "'a config_scheme \<Rightarrow> controller \<Rightarrow> controller" where
  "launch c s =
     (if can_launch c s
      then (case launch_one c s of
              (None, s') \<Rightarrow> s'
            | (Some e, s') \<Rightarrow> shutdown_begin s')
      else s)"

fun step :: "'a config_scheme \<Rightarrow> event \<Rightarrow> controller \<Rightarrow> controller" where
  "step c (Assign task_details rc) s = snd (assign_task c task_details rc s)"
| "step c RunBegin s = s\<lparr> running := True \<rparr>"
| "step c Launch s = launch c s"
| "step c (UnitBegin u) s = unit_begin u s"
| "step c (UnitEnd u oc) s = unit_end u oc s"
| "step c (Callback u) s = callback c u s"
| "step c Shutdown s = shutdown_begin s"
| "step c (ShutdownResume i) s = shutdown_resume i s"

fun exec :: "'a config_scheme \<Rightarrow> event list \<Rightarrow> controller \<Rightarrow> controller" where
  "exec c [] s = s"
| "exec c (ev # evs) s = exec c evs (step c ev s)"

text \<open>Line 140: the condition of the outer \<^verbatim>\<open>while\<close> is false, so \<^verbatim>\<open>run\<close> leaves its loop.\<close>

definition run_loop_exits :: "controller \<Rightarrow> bool" where
  "run_loop_exits s = (\<not> (running s \<or> active_tasks s \<noteq> []))"

section \<open>Notions used in the statements\<close>

text \<open>
  The routing rules in the words of the specification: a field is present when it is a
  key of the dictionary, and a description contains a keyword when it is a string whose
  lower-cased text has the keyword as a substring (the code compares after
  \<^verbatim>\<open>.lower()\<close>).
\<close>

definition has_field :: "string \<Rightarrow> details \<Rightarrow> bool" where
  "has_field k task_info = (k \<in> fst ` set task_info)"

definition description_contains :: "string list \<Rightarrow> details \<Rightarrow> bool" where
  "description_contains kws task_info =
     (case map_of task_info ''description'' of
        Some (PStr d) \<Rightarrow> list_ex (\<lambda>kw. sublist kw (lower d)) kws
      | _ \<Rightarrow> False)"

definition inferred_class :: "details \<Rightarrow> agent_class" where
  "inferred_class task_info =
     (if has_field ''url'' task_info then BrowserAgent
      else if description_contains [''create''] task_info then ToolCreatorAgent
      else if has_field ''code'' task_info \<or> has_field ''code_key'' task_info then ToolExecutorAgent
      else if description_contains [''find'', ''research'', ''gather''] task_info then InfoHunterAgent
      else Agent)"

text \<open>The description, when there is one, is a \<^verbatim>\<open>str\<close>.\<close>

definition description_is_str :: "details \<Rightarrow> bool" where
  "description_is_str task_info =
     (case map_of task_info ''description'' of Some (PNonStr r) \<Rightarrow> False | _ \<Rightarrow> True)"

text \<open>In a queue, no fresh task stands before a retry.\<close>

definition is_retry :: "task \<Rightarrow> bool" where
  "is_retry t = (retry_count t > 0)"

definition retries_first :: "task list \<Rightarrow> bool" where
  "retries_first q = list_all (\<lambda>t. \<not> is_retry t) (dropWhile is_retry q)"

section \<open>Example configurations and inputs\<close>

definition uuid_seq :: "string list \<Rightarrow> nat \<Rightarrow> string" where
  "uuid_seq xs n = (if n < length xs then xs ! n else [])"

definition some_uuids :: "string list" where
  "some_uuids =
     [''3f2b8c1e-0d4a-4e6f-9a7b-5c1d2e3f4a5b'', ''7a9c4d2f-1b3e-4c5d-8e6f-0a1b2c3d4e5f'',
      ''c0ffee00-aaaa-4bbb-8ccc-dddddddddddd'', ''deadbeef-1111-4222-8333-444444444444'',
      ''0badf00d-5555-4666-8777-888888888888'', ''1234abcd-9999-4aaa-8bbb-cccccccccccc'',
      ''feedface-2222-4333-8444-555555555555'', ''89abcdef-6666-4777-8888-999999999999'']"

text \<open>One agent at most, one retry.\<close>

definition cfg1 :: config where
  "cfg1 = \<lparr> cfg_max_concurrent_agents = Some 1, cfg_max_task_retries = Some 1,
            uuid4 = uuid_seq some_uuids \<rparr>"

text \<open>The defaults of \<^verbatim>\<open>__init__\<close>: five agents, one retry.\<close>

definition cfg_default :: config where
  "cfg_default = \<lparr> cfg_max_concurrent_agents = None, cfg_max_task_retries = None,
                   uuid4 = uuid_seq some_uuids \<rparr>"

definition find_papers :: details where
  "find_papers = [(''description'', PStr ''Find papers on X'')]"

definition scrape :: details where
  "scrape = [(''url'', PStr ''https://example.com''), (''action'', PStr ''scrape_text'')]"


text \<open>
  The successive attempts of one logical task, each of which fails: the retry logic runs
  for the failed attempt \<open>m\<close>; when it has queued a retry, the dispatcher takes that
  record from the head of the queue, and its attempt fails in turn. The result lists
  the records that were queued as retries, in order. The fuel bounds the number of
  attempts; \<open>None\<close> means it ran out.
\<close>

fun retry_chain ::
  "nat \<Rightarrow> 'a config_scheme \<Rightarrow> string \<Rightarrow> task \<Rightarrow> controller \<Rightarrow> (task list \<times> controller) option" where
  "retry_chain 0 c aid m s = None"
| "retry_chain (Suc n) c aid m s =
     (let s' = retry_logic c aid m s
      in if length (task_queue s') > length (task_queue s)
         then (case task_queue s' of
                 [] \<Rightarrow> None
               | t # q \<Rightarrow>
                   (case retry_chain n c aid t (s'\<lparr> task_queue := q \<rparr>) of
                      None \<Rightarrow> None
                    | Some (ts, sf) \<Rightarrow> Some (t # ts, sf)))
         else Some ([], s'))"

text \<open>Two retries allowed, five agents.\<close>

definition cfg2 :: config where
  "cfg2 = \<lparr> cfg_max_concurrent_agents = None, cfg_max_task_retries = Some 2,
            uuid4 = uuid_seq some_uuids \<rparr>"


text \<open>
  The log records the retry logic writes along a chain of attempts \<open>m, t1, t2, \<dots>\<close>:
  for each retry, that the failed attempt is retried and that the new record is queued.
\<close>

fun retry_log :: "string \<Rightarrow> task list \<Rightarrow> log_entry list" where
  "retry_log aid (m # t # ts) =
     LogRetrying (task_id m) aid (retry_count t) # LogRequeued (task_id t) (retry_count t)
       # retry_log aid (t # ts)"
| "retry_log aid ts = []"


definition is_giving_up :: "log_entry \<Rightarrow> bool" where
  "is_giving_up e = (case e of LogGivingUp tid aid \<Rightarrow> True | _ \<Rightarrow> False)"

text \<open>A task is assigned and its first attempt fails; the callback has not run yet.\<close>

definition first_failure :: "event list" where
  "first_failure = [Assign find_papers 0, RunBegin, Launch, UnitBegin 0, UnitEnd 0 (Raises ''boom'')]"


text \<open>The task record and the agent of that first attempt, as the callback finds them.\<close>

definition first_attempt :: task where
  "first_attempt = \<lparr> task_id = ''3f2b8c1e-0d4a-4e6f-9a7b-5c1d2e3f4a5b'', details = find_papers,
                     status = Completed, retry_count = 0, error = None \<rparr>"


text \<open>The retries queued for that task when every attempt fails.\<close>

definition two_retries :: "task list" where
  "two_retries =
     [\<lparr> task_id = ''c0ffee00-aaaa-4bbb-8ccc-dddddddddddd'', details = find_papers,
        status = Pending, retry_count = 1, error = None \<rparr>,
      \<lparr> task_id = ''deadbeef-1111-4222-8333-444444444444'', details = find_papers,
        status = Pending, retry_count = 2, error = None \<rparr>]"

text \<open>Two tasks are assigned; the first is launched, succeeds, and its callback runs.\<close>

definition one_done_one_waiting :: "event list" where
  "one_done_one_waiting =
     [Assign find_papers 0, Assign scrape 0, RunBegin, Launch, UnitBegin 0,
      UnitEnd 0 (Returns (Some ''Information hunt complete'')), Callback 0]"

text \<open>
  The agent id of every agent object, by address, and two properties of the stores:
  every address in use lies below \<open>next_addr\<close>, and every unit in \<^verbatim>\<open>active_tasks\<close> is
  filed under the id of the agent object it holds.
\<close>

definition ids :: "controller \<Rightarrow> (nat \<times> string) list" where
  "ids s = map (\<lambda>p. (fst p, agent_id (snd p))) (agent_objs s)"













text \<open>
  The task ids in the queue and in the units, the ids of the units that are done, the
  ids in the history, and the UUIDs drawn so far.
\<close>

definition queue_ids :: "controller \<Rightarrow> string list" where
  "queue_ids s = map task_id (task_queue s)"

definition unit_tasks :: "controller \<Rightarrow> (nat \<times> string) list" where
  "unit_tasks s = map (\<lambda>p. (fst p, task_id (u_task (snd p)))) (units s)"

definition is_done :: "unit_phase \<Rightarrow> bool" where
  "is_done ph = (case ph of Done r \<Rightarrow> True | _ \<Rightarrow> False)"

definition done_ids :: "controller \<Rightarrow> string list" where
  "done_ids s = map (\<lambda>p. task_id (u_task (snd p))) (filter (\<lambda>p. is_done (u_phase (snd p))) (units s))"

definition hist_ids :: "controller \<Rightarrow> string list" where
  "hist_ids s = map fst (completed_tasks_history s)"

definition drawn :: "'a config_scheme \<Rightarrow> controller \<Rightarrow> string list" where
  "drawn c s = map (uuid4 c) [0..<uuid_calls s]"

text \<open>
  The bookkeeping of task ids is sound: the ids in the queue and in the units are
  pairwise distinct and were drawn from \<^verbatim>\<open>uuid4\<close>; the ids in the history are pairwise
  distinct and belong to units that are done; the units live below \<open>next_addr\<close>.
\<close>

definition task_ids_sound :: "'a config_scheme \<Rightarrow> controller \<Rightarrow> bool" where
  "task_ids_sound c s =
     (distinct (queue_ids s @ map snd (unit_tasks s)) \<and>
      set (queue_ids s @ map snd (unit_tasks s)) \<subseteq> set (drawn c s) \<and>
      distinct (hist_ids s) \<and>
      set (hist_ids s) \<subseteq> set (done_ids s) \<and>
      list_all (\<lambda>p. fst p < next_addr s) (unit_tasks s))"

text \<open>
  The history entry an event records: the end of a started unit records one entry, and
  no other event records any. \<open>completions\<close> lists the entries recorded along a run.
\<close>

definition completion :: "event \<Rightarrow> controller \<Rightarrow> (string \<times> task) list" where
  "completion ev s =
     (case ev of
        UnitEnd u oc \<Rightarrow>
          (case (dict_get (units s) u, dict_get (agent_objs s) u) of
             (Some ur, Some ag) \<Rightarrow>
               if u_phase ur = Started \<and> ((oc = CancelledIn) = cancel_requested ur)
               then [(task_id (u_task ur),
                      (u_task ur)\<lparr> status := (if oc = CancelledIn then Cancelled else Completed) \<rparr>)]
               else []
           | _ \<Rightarrow> [])
      | _ \<Rightarrow> [])"

fun completions :: "'a config_scheme \<Rightarrow> event list \<Rightarrow> controller \<Rightarrow> (string \<times> task) list" where
  "completions c [] s = []"
| "completions c (ev # evs) s = completion ev s @ completions c evs (step c ev s)"

text \<open>
  A source of UUIDs that never repeats, sixty agents allowed, and a run in which
  fifty-one tasks are assigned, launched and completed one after the other.
\<close>

definition hex8 :: "nat \<Rightarrow> string" where
  "hex8 n = map (\<lambda>i. ''0123456789abcdef'' ! ((n div 16 ^ (7 - i)) mod 16)) [0..<8]"

definition uuid_from :: "nat \<Rightarrow> string" where
  "uuid_from n = hex8 n @ ''-0000-4000-8000-000000000000''"

definition cfg_many :: config where
  "cfg_many = \<lparr> cfg_max_concurrent_agents = Some 60, cfg_max_task_retries = None,
                uuid4 = uuid_from \<rparr>"

definition one_completion :: "nat \<Rightarrow> event list" where
  "one_completion u =
     [Assign find_papers 0, Launch, UnitBegin u, UnitEnd u (Returns (Some ''done'')), Callback u]"

definition fifty_one_completions :: "event list" where
  "fifty_one_completions = concat (map one_completion [0..<51])"


section \<open>Basic facts\<close>

subsection \<open>Dictionaries and the bounded deque\<close>

lemma length_dict_set: "length (dict_set k v d) = (if dict_has k d then length d else Suc (length d))"
  by (induction d) (auto simp: dict_has_def)

lemma length_dict_set_le: "length (dict_set k v d) \<le> Suc (length d)"
  by (simp add: length_dict_set)


lemma dict_get_dict_set: "dict_get (dict_set k v d) k' = (if k' = k then Some v else dict_get d k')"
  by (induction d) (auto simp: dict_get_def)






subsection \<open>What each operation does to the registry\<close>

lemma agents_assign_task [simp]: "agents (snd (assign_task c d rc s)) = agents s"
  by (simp add: assign_task_def Let_def)

lemma create_agent_at_capacity:
  "int (length (agents s)) \<ge> max_concurrent_agents c \<Longrightarrow>
   create_agent c h d s = (Inr None, s\<lparr> log := log s @ [LogLimitReached] \<rparr>)"
  by (simp add: create_agent_def)

lemma agents_create_agent_cases:
  "agents (snd (create_agent c h d s)) = agents s \<or>
   (int (length (agents s)) < max_concurrent_agents c \<and>
    (\<exists>k v. agents (snd (create_agent c h d s)) = dict_set k v (agents s)))"
  by (auto simp add: create_agent_def Let_def split: sum.splits)

lemma agents_launch_one_cases:
  "agents (snd (launch_one c s)) = agents s \<or>
   (int (length (agents s)) < max_concurrent_agents c \<and>
    (\<exists>k v. agents (snd (launch_one c s)) = dict_set k v (agents s)))"
proof (cases "task_queue s")
  case Nil
  then show ?thesis by (simp add: launch_one_def)
next
  case (Cons t q)
  let ?h = "case dict_get (details t) ''agent_type'' of None \<Rightarrow> PStr ''default'' | Some v \<Rightarrow> v"
  let ?s1 = "s\<lparr> task_queue := q \<rparr>"
  have eq: "agents (snd (launch_one c s)) = agents (snd (create_agent c ?h (details t) ?s1))"
    using Cons by (simp add: launch_one_def Let_def split: prod.splits sum.splits option.splits)
  show ?thesis using agents_create_agent_cases[of c ?h "details t" ?s1] by (simp add: eq)
qed

lemma agents_shutdown_finish [simp]: "agents (shutdown_finish s) = []"
  by (simp add: shutdown_finish_def)

lemma agents_shutdown_agents: "agents (shutdown_agents s) = agents s \<or> agents (shutdown_agents s) = []"
  by (simp add: shutdown_agents_def Let_def)

lemma agents_shutdown_after_units:
  "agents (shutdown_after_units s) = agents s \<or> agents (shutdown_after_units s) = []"
  using agents_shutdown_agents[of "s\<lparr>active_tasks := []\<rparr>"] by (simp add: shutdown_after_units_def)

lemma agents_shutdown_begin: "agents (shutdown_begin s) = agents s \<or> agents (shutdown_begin s) = []"
  using agents_shutdown_agents[of "s\<lparr>running := False\<rparr>"] by (simp add: shutdown_begin_def Let_def)

lemma agents_shutdown_resume: "agents (shutdown_resume i s) = agents s \<or> agents (shutdown_resume i s) = []"
  using agents_shutdown_after_units[of "s\<lparr>suspended_shutdowns := remove_nth i (suspended_shutdowns s)\<rparr>"]
  by (auto simp add: shutdown_resume_def split: shutdown_phase.splits)

lemma agents_run_agent_task_begin [simp]: "agents (run_agent_task_begin u s) = agents s"
  by (simp add: run_agent_task_begin_def split: option.splits)

lemma agents_receive_agent_update [simp]: "agents (receive_agent_update aid st s) = agents s"
  by (simp add: receive_agent_update_def split: option.splits)

lemma agents_run_agent_task_end [simp]: "agents (run_agent_task_end u oc s) = agents s"
  by (simp add: run_agent_task_end_def Let_def split: option.splits prod.splits)

lemma agents_cancel_unstarted [simp]: "agents (cancel_unstarted u s) = agents s"
  by (simp add: cancel_unstarted_def split: option.splits)

lemma agents_retry_logic [simp]: "agents (retry_logic c aid m s) = agents s"
  by (simp add: retry_logic_def Let_def)

lemma agents_handle_task_completion [simp]: "agents (handle_task_completion c u s) = agents s"
  by (simp add: handle_task_completion_def Let_def split: option.splits prod.splits)

lemma agents_unit_begin [simp]: "agents (unit_begin u s) = agents s"
  by (simp add: unit_begin_def split: option.splits)

lemma agents_unit_end [simp]: "agents (unit_end u oc s) = agents s"
  by (simp add: unit_end_def split: option.splits)

lemma agents_callback [simp]: "agents (callback c u s) = agents s"
  by (simp add: callback_def Let_def split: option.splits unit_phase.splits)

lemma agents_launch_cases:
  "agents (launch c s) = agents s \<or> agents (launch c s) = [] \<or>
   (int (length (agents s)) < max_concurrent_agents c \<and>
    (\<exists>k v. agents (launch c s) = dict_set k v (agents s)))"
proof (cases "can_launch c s")
  case False
  then show ?thesis by (simp add: launch_def)
next
  case True
  obtain r s' where l: "launch_one c s = (r, s')" by (cases "launch_one c s")
  have s': "agents s' = agents s \<or>
            (int (length (agents s)) < max_concurrent_agents c \<and> (\<exists>k v. agents s' = dict_set k v (agents s)))"
    using agents_launch_one_cases[of c s] l by simp
  show ?thesis
  proof (cases r)
    case None
    then show ?thesis using True l s' by (auto simp add: launch_def)
  next
    case (Some e)
    then have eq: "launch c s = shutdown_begin s'" using True l by (simp add: launch_def)
    have "agents (shutdown_begin s') = agents s' \<or> agents (shutdown_begin s') = []"
      by (rule agents_shutdown_begin)
    then show ?thesis using s' unfolding eq by metis
  qed
qed

lemma agents_step_cases:
  "agents (step c ev s) = agents s \<or> agents (step c ev s) = [] \<or>
   (int (length (agents s)) < max_concurrent_agents c \<and>
    (\<exists>k v. agents (step c ev s) = dict_set k v (agents s)))"
proof (cases ev)
  case Launch
  then show ?thesis using agents_launch_cases[of c s] by simp
next
  case Shutdown
  then show ?thesis using agents_shutdown_begin[of s] by auto
next
  case (ShutdownResume i)
  then show ?thesis using agents_shutdown_resume[of i s] by auto
qed simp_all

lemma step_keeps_bound:
  assumes "int (length (agents s)) \<le> max_concurrent_agents c"
  shows "int (length (agents (step c ev s))) \<le> max_concurrent_agents c"
proof -
  have nonneg: "0 \<le> max_concurrent_agents c" using assms by linarith
  consider "agents (step c ev s) = agents s" | "agents (step c ev s) = []"
    | k v where "int (length (agents s)) < max_concurrent_agents c"
        and "agents (step c ev s) = dict_set k v (agents s)"
    using agents_step_cases[of c ev s] by blast
  then show ?thesis
  proof cases
    case 1 then show ?thesis using assms by simp
  next
    case 2 then show ?thesis using nonneg by simp
  next
    case 3 then show ?thesis using length_dict_set_le[of k v "agents s"] by simp
  qed
qed

lemma exec_keeps_bound:
  "int (length (agents s)) \<le> max_concurrent_agents c \<Longrightarrow>
   int (length (agents (exec c evs s))) \<le> max_concurrent_agents c"
  by (induction evs arbitrary: s) (simp_all add: step_keeps_bound)

subsection \<open>What each operation does to the history\<close>

lemma history_assign_task [simp]:
  "completed_tasks_history (snd (assign_task c d rc s)) = completed_tasks_history s"
  by (simp add: assign_task_def Let_def)

lemma history_create_agent [simp]:
  "completed_tasks_history (snd (create_agent c h d s)) = completed_tasks_history s"
  by (simp add: create_agent_def Let_def split: sum.splits)

lemma history_launch_one [simp]:
  "completed_tasks_history (snd (launch_one c s)) = completed_tasks_history s"
proof (cases "task_queue s")
  case Nil
  then show ?thesis by (simp add: launch_one_def)
next
  case (Cons t q)
  let ?h = "case dict_get (details t) ''agent_type'' of None \<Rightarrow> PStr ''default'' | Some v \<Rightarrow> v"
  let ?s1 = "s\<lparr> task_queue := q \<rparr>"
  obtain r s2 where ca: "create_agent c ?h (details t) ?s1 = (r, s2)"
    by (cases "create_agent c ?h (details t) ?s1")
  have "completed_tasks_history s2 = completed_tasks_history s"
    using history_create_agent[of c ?h "details t" ?s1] ca by simp
  then show ?thesis using Cons ca
    by (simp add: launch_one_def Let_def split: sum.splits option.splits)
qed

lemma history_shutdown_finish [simp]:
  "completed_tasks_history (shutdown_finish s) = completed_tasks_history s"
  by (simp add: shutdown_finish_def)

lemma history_shutdown_agents [simp]:
  "completed_tasks_history (shutdown_agents s) = completed_tasks_history s"
  by (simp add: shutdown_agents_def Let_def)

lemma history_shutdown_after_units [simp]:
  "completed_tasks_history (shutdown_after_units s) = completed_tasks_history s"
  by (simp add: shutdown_after_units_def)

lemma history_shutdown_begin [simp]:
  "completed_tasks_history (shutdown_begin s) = completed_tasks_history s"
  by (simp add: shutdown_begin_def Let_def)

lemma history_shutdown_resume [simp]:
  "completed_tasks_history (shutdown_resume i s) = completed_tasks_history s"
  by (simp add: shutdown_resume_def split: shutdown_phase.splits)

lemma history_run_agent_task_begin [simp]:
  "completed_tasks_history (run_agent_task_begin u s) = completed_tasks_history s"
  by (simp add: run_agent_task_begin_def split: option.splits)

lemma history_receive_agent_update [simp]:
  "completed_tasks_history (receive_agent_update aid st s) = completed_tasks_history s"
  by (simp add: receive_agent_update_def split: option.splits)

lemma history_cancel_unstarted [simp]:
  "completed_tasks_history (cancel_unstarted u s) = completed_tasks_history s"
  by (simp add: cancel_unstarted_def split: option.splits)

lemma history_retry_logic [simp]:
  "completed_tasks_history (retry_logic c aid m s) = completed_tasks_history s"
  by (simp add: retry_logic_def Let_def)

lemma history_handle_task_completion [simp]:
  "completed_tasks_history (handle_task_completion c u s) = completed_tasks_history s"
  by (simp add: handle_task_completion_def Let_def split: option.splits prod.splits)

lemma history_unit_begin [simp]:
  "completed_tasks_history (unit_begin u s) = completed_tasks_history s"
  by (simp add: unit_begin_def split: option.splits)

lemma history_callback [simp]:
  "completed_tasks_history (callback c u s) = completed_tasks_history s"
  by (simp add: callback_def Let_def split: option.splits unit_phase.splits)

lemma history_launch [simp]:
  "completed_tasks_history (launch c s) = completed_tasks_history s"
proof -
  obtain r s' where l: "launch_one c s = (r, s')" by (cases "launch_one c s")
  then have "completed_tasks_history s' = completed_tasks_history s"
    using history_launch_one[of c s] by simp
  then show ?thesis using l by (simp add: launch_def split: option.splits)
qed






subsection \<open>The retry logic\<close>

lemma retry_logic_queue_retry:
  "retry_count m < max_task_retries c \<Longrightarrow> 0 \<le> retry_count m \<Longrightarrow>
   task_queue (retry_logic c aid m s) =
     \<lparr> task_id = uuid4 c (uuid_calls s), details = details m, status = Pending,
       retry_count = retry_count m + 1, error = None \<rparr> # task_queue s"
  by (simp add: retry_logic_def assign_task_def Let_def)

lemma retry_logic_queue_give_up:
  "\<not> retry_count m < max_task_retries c \<Longrightarrow> task_queue (retry_logic c aid m s) = task_queue s"
  by (simp add: retry_logic_def)

lemma retry_logic_uuid_calls:
  "uuid_calls (retry_logic c aid m s) =
     (if retry_count m < max_task_retries c then Suc (uuid_calls s) else uuid_calls s)"
  by (simp add: retry_logic_def assign_task_def Let_def)

lemma retry_logic_log_retry:
  "retry_count m < max_task_retries c \<Longrightarrow> 0 \<le> retry_count m \<Longrightarrow>
   log (retry_logic c aid m s) =
     log s @ [LogRetrying (task_id m) aid (retry_count m + 1),
              LogRequeued (uuid4 c (uuid_calls s)) (retry_count m + 1)]"
  by (simp add: retry_logic_def assign_task_def Let_def)

lemma retry_logic_log_give_up:
  "\<not> retry_count m < max_task_retries c \<Longrightarrow>
   log (retry_logic c aid m s) = log s @ [LogGivingUp (task_id m) aid]"
  by (simp add: retry_logic_def)

text \<open>
  The chain of failing attempts from any retry count between 0 and the limit: the
  records queued, the final queue, the number of UUIDs drawn and the log.
\<close>

lemma retry_chain_general:
  assumes "0 \<le> retry_count m" and "retry_count m \<le> max_task_retries c"
    and "n > nat (max_task_retries c - retry_count m)"
  shows "\<exists>ts sf. retry_chain n c aid m s = Some (ts, sf) \<and>
           length ts = nat (max_task_retries c - retry_count m) \<and>
           (\<forall>i < length ts. retry_count (ts ! i) = retry_count m + 1 + int i \<and>
                            details (ts ! i) = details m \<and>
                            status (ts ! i) = Pending \<and>
                            task_id (ts ! i) = uuid4 c (uuid_calls s + i)) \<and>
           task_queue sf = task_queue s \<and>
           uuid_calls sf = uuid_calls s + length ts \<and>
           log sf = log s @ retry_log aid (m # ts) @ [LogGivingUp (task_id (last (m # ts))) aid]"
  using assms
proof (induction n arbitrary: m s)
  case 0
  then show ?case by simp
next
  case (Suc n)
  show ?case
  proof (cases "retry_count m < max_task_retries c")
    case False
    then have eq: "retry_count m = max_task_retries c" using Suc.prems by simp
    then show ?thesis using False
      by (simp add: retry_logic_queue_give_up retry_logic_uuid_calls retry_logic_log_give_up Let_def)
  next
    case True
    let ?t = "\<lparr> task_id = uuid4 c (uuid_calls s), details = details m, status = Pending,
                 retry_count = retry_count m + 1, error = None \<rparr>"
    let ?s' = "retry_logic c aid m s"
    have q: "task_queue ?s' = ?t # task_queue s"
      using True Suc.prems by (simp add: retry_logic_queue_retry)
    let ?s1 = "?s'\<lparr> task_queue := task_queue s \<rparr>"
    have fuel: "n > nat (max_task_retries c - retry_count ?t)"
      using Suc.prems True by simp
    have "0 \<le> retry_count ?t" "retry_count ?t \<le> max_task_retries c"
      using Suc.prems True by simp_all
    from Suc.IH[OF this fuel, of ?s1]
    obtain ts sf where ch: "retry_chain n c aid ?t ?s1 = Some (ts, sf)"
      and len: "length ts = nat (max_task_retries c - retry_count ?t)"
      and el: "\<forall>i < length ts. retry_count (ts ! i) = retry_count ?t + 1 + int i \<and>
                            details (ts ! i) = details ?t \<and>
                            status (ts ! i) = Pending \<and>
                            task_id (ts ! i) = uuid4 c (uuid_calls ?s1 + i)"
      and qf: "task_queue sf = task_queue ?s1"
      and uf: "uuid_calls sf = uuid_calls ?s1 + length ts"
      and lf: "log sf = log ?s1 @ retry_log aid (?t # ts) @ [LogGivingUp (task_id (last (?t # ts))) aid]"
      by blast
    have u1: "uuid_calls ?s1 = Suc (uuid_calls s)"
      using True by (simp add: retry_logic_uuid_calls)
    have l1: "log ?s1 = log s @ [LogRetrying (task_id m) aid (retry_count ?t),
                                 LogRequeued (task_id ?t) (retry_count ?t)]"
      using True Suc.prems by (simp add: retry_logic_log_retry)
    have res: "retry_chain (Suc n) c aid m s = Some (?t # ts, sf)"
      using q ch by (simp add: Let_def)
    have len': "length (?t # ts) = nat (max_task_retries c - retry_count m)"
      using len True by simp
    have el': "\<forall>i < length (?t # ts). retry_count ((?t # ts) ! i) = retry_count m + 1 + int i \<and>
                            details ((?t # ts) ! i) = details m \<and>
                            status ((?t # ts) ! i) = Pending \<and>
                            task_id ((?t # ts) ! i) = uuid4 c (uuid_calls s + i)"
    proof (intro allI impI)
      fix i assume "i < length (?t # ts)"
      then show "retry_count ((?t # ts) ! i) = retry_count m + 1 + int i \<and>
                            details ((?t # ts) ! i) = details m \<and>
                            status ((?t # ts) ! i) = Pending \<and>
                            task_id ((?t # ts) ! i) = uuid4 c (uuid_calls s + i)"
        using el u1 by (cases i) auto
    qed
    have lf': "log sf = log s @ retry_log aid (m # ?t # ts) @
                 [LogGivingUp (task_id (last (m # ?t # ts))) aid]"
      using lf l1 by simp
    show ?thesis
      using res len' el' qf uf u1 lf' by (auto simp del: retry_chain.simps)
  qed
qed



text \<open>Consequences of what the chain says about the records it queued.\<close>

lemma nth_retry:
  assumes el: "\<forall>i < length ts. retry_count (ts ! i) = retry_count m + 1 + int i \<and>
                            details (ts ! i) = details m \<and>
                            status (ts ! i) = Pending \<and>
                            task_id (ts ! i) = uuid4 c (uuid_calls s + i)"
    and h: "retry_count m = 0" and N: "1 \<le> N" "N \<le> length ts"
  shows "retry_count (ts ! (N - 1)) = int N \<and> details (ts ! (N - 1)) = details m \<and>
        task_id (ts ! (N - 1)) = uuid4 c (uuid_calls s + (N - 1))"
proof -
  have "N - 1 < length ts" using N by linarith
  with el have "retry_count (ts ! (N - 1)) = retry_count m + 1 + int (N - 1) \<and>
                  details (ts ! (N - 1)) = details m \<and>
                  task_id (ts ! (N - 1)) = uuid4 c (uuid_calls s + (N - 1))" by blast
  moreover have "1 + int (N - 1) = int N" using N by simp
  ultimately show ?thesis using h by simp
qed

lemma retry_ids_are_the_next_uuids:
  assumes el: "\<forall>i < length ts. retry_count (ts ! i) = retry_count m + 1 + int i \<and>
                            details (ts ! i) = details m \<and>
                            status (ts ! i) = Pending \<and>
                            task_id (ts ! i) = uuid4 c (uuid_calls s + i)"
  shows "map task_id ts = map (uuid4 c) [uuid_calls s..<uuid_calls s + length ts]"
  using el by (intro nth_equalityI) simp_all

lemma distinct_attempt_ids:
  assumes ids: "map task_id ts = map (uuid4 c) [uuid_calls s..<uuid_calls s + length ts]"
   and d: "distinct (map (uuid4 c) [0..<uuid_calls s + length ts])"
   and e: "task_id m \<in> set (map (uuid4 c) [0..<uuid_calls s])"
  shows "distinct (map task_id (m # ts))"
proof -
  have sp: "[0..<uuid_calls s + length ts] = [0..<uuid_calls s] @ [uuid_calls s..<uuid_calls s + length ts]"
    using upt_add_eq_append[of 0 "uuid_calls s" "length ts"] by simp
  have "distinct (map (uuid4 c) [0..<uuid_calls s] @ map (uuid4 c) [uuid_calls s..<uuid_calls s + length ts])"
    using d unfolding sp by simp
  then have dd: "distinct (map (uuid4 c) [0..<uuid_calls s] @ map task_id ts)"
    using ids by simp
  then have "distinct (map task_id ts)" by simp
  moreover have "task_id m \<notin> set (map task_id ts)"
    using dd e by auto
  ultimately show ?thesis by simp
qed

subsection \<open>Agent ids never change\<close>



lemma ids_dict_set_same_id:
  "dict_get d a = Some ag \<Longrightarrow> agent_id ag' = agent_id ag \<Longrightarrow>
   map (\<lambda>p. (fst p, agent_id (snd p))) (dict_set a ag' d) = map (\<lambda>p. (fst p, agent_id (snd p))) d"
  by (induction d) (auto simp: dict_get_def)

lemma ids_update_at_same_id:
  "(\<And>ag. agent_id (f ag) = agent_id ag) \<Longrightarrow>
   map (\<lambda>p. (fst p, agent_id (snd p))) (update_at addrs f d) = map (\<lambda>p. (fst p, agent_id (snd p))) d"
  by (induction d) (auto simp: update_at_def)

lemma ids_assign_task [simp]: "ids (snd (assign_task c d rc s)) = ids s"
  by (simp add: ids_def assign_task_def Let_def)

lemma ids_receive_agent_update [simp]: "ids (receive_agent_update aid st s) = ids s"
  by (auto simp add: ids_def receive_agent_update_def ids_dict_set_same_id split: option.splits)

lemma ids_run_agent_task_begin [simp]: "ids (run_agent_task_begin u s) = ids s"
  by (auto simp add: ids_def run_agent_task_begin_def receive_task_begin_def ids_dict_set_same_id
        split: option.splits)

lemma agent_id_receive_task_end [simp]: "agent_id (snd (receive_task_end oc ag)) = agent_id ag"
  by (cases oc) (simp_all add: receive_task_end_def)

lemma ids_cancel_unstarted [simp]: "ids (cancel_unstarted u s) = ids s"
  by (simp add: ids_def cancel_unstarted_def split: option.splits)

lemma ids_retry_logic [simp]: "ids (retry_logic c aid m s) = ids s"
  by (simp add: ids_def retry_logic_def assign_task_def Let_def)

lemma ids_shutdown_finish [simp]: "ids (shutdown_finish s) = ids s"
  by (simp add: ids_def shutdown_finish_def)

lemma ids_shutdown_agents [simp]: "ids (shutdown_agents s) = ids s"
  by (simp add: ids_def shutdown_agents_def Let_def shutdown_finish_def ids_update_at_same_id stop_def)

lemma ids_shutdown_after_units [simp]: "ids (shutdown_after_units s) = ids s"
proof -
  have "ids (shutdown_agents (s\<lparr> active_tasks := [] \<rparr>)) = ids (s\<lparr> active_tasks := [] \<rparr>)"
    by (rule ids_shutdown_agents)
  then show ?thesis by (simp add: shutdown_after_units_def ids_def)
qed

lemma ids_shutdown_begin [simp]: "ids (shutdown_begin s) = ids s"
proof -
  have "ids (shutdown_agents (s\<lparr> running := False \<rparr>)) = ids (s\<lparr> running := False \<rparr>)"
    by (rule ids_shutdown_agents)
  then show ?thesis by (simp add: shutdown_begin_def Let_def ids_def)
qed

lemma ids_shutdown_resume [simp]: "ids (shutdown_resume i s) = ids s"
proof -
  let ?s1 = "s\<lparr> suspended_shutdowns := remove_nth i (suspended_shutdowns s) \<rparr>"
  have "ids (shutdown_after_units ?s1) = ids ?s1" "ids (shutdown_finish ?s1) = ids ?s1"
    by simp_all
  moreover have "ids ?s1 = ids s" by (simp add: ids_def)
  ultimately show ?thesis by (simp add: shutdown_resume_def split: shutdown_phase.splits)
qed

lemma ids_run_agent_task_end [simp]: "ids (run_agent_task_end u oc s) = ids s"
proof (cases "dict_get (units s) u")
  case None
  then show ?thesis by (simp add: run_agent_task_end_def)
next
  case (Some ur)
  show ?thesis
  proof (cases "dict_get (agent_objs s) u")
    case None
    then show ?thesis using Some by (simp add: run_agent_task_end_def)
  next
    case ag: (Some ag)
    obtain r ag1 where rt: "receive_task_end oc ag = (r, ag1)" by (cases "receive_task_end oc ag")
    obtain res t where wr: "wrapper_result r (u_task ur) = (res, t)"
      by (cases "wrapper_result r (u_task ur)")
    let ?ag2 = "ag1\<lparr> task_meta_for_callback := map_option (\<lambda>_. t) (task_meta_for_callback ag1) \<rparr>"
    let ?s1 = "s\<lparr> agent_objs := dict_set u ?ag2 (agent_objs s) \<rparr>"
    have id1: "agent_id ag1 = agent_id ag"
      using agent_id_receive_task_end[of oc ag] rt by simp
    have "ids ?s1 = ids s"
      using ag id1 by (simp add: ids_def ids_dict_set_same_id)
    then have "ids (receive_agent_update (agent_id ?ag2) (state ?ag2) ?s1) = ids s"
      by simp
    then show ?thesis
      using Some ag rt wr by (simp add: run_agent_task_end_def Let_def ids_def)
  qed
qed

lemma ids_handle_task_completion [simp]: "ids (handle_task_completion c u s) = ids s"
proof (cases "find_agent_id u (active_tasks s)")
  case None
  then show ?thesis by (simp add: handle_task_completion_def ids_def)
next
  case (Some aid)
  let ?s1 = "s\<lparr> active_tasks := dict_del aid (active_tasks s) \<rparr>"
  have i1: "ids ?s1 = ids s" by (simp add: ids_def)
  show ?thesis
  proof (cases "aid = []")
    case True
    then show ?thesis using Some by (simp add: handle_task_completion_def ids_def)
  next
    case False
    show ?thesis
    proof (cases "registered_agent ?s1 aid")
      case None
      then show ?thesis using Some False i1 by (simp add: handle_task_completion_def Let_def)
    next
      case reg: (Some p)
      obtain a ag where p: "p = (a, ag)" by (cases p)
      have obj: "dict_get (agent_objs ?s1) a = Some ag"
        using reg p by (simp add: registered_agent_def split: option.splits)
      have upd: "ids (s2\<lparr> agent_objs := dict_set a (ag\<lparr> task_meta_for_callback := None \<rparr>) (agent_objs s2) \<rparr>)
                   = ids s2" if "agent_objs s2 = agent_objs ?s1" for s2
        using that obj by (simp add: ids_def ids_dict_set_same_id)
      have r: "agent_objs (retry_logic c aid m ?s1) = agent_objs ?s1" for m
        by (simp add: retry_logic_def assign_task_def Let_def)
      show ?thesis
        using Some False reg p i1 upd[of ?s1] upd[OF r] 
        by (simp add: handle_task_completion_def Let_def split: option.splits)
    qed
  qed
qed

lemma ids_unit_begin [simp]: "ids (unit_begin u s) = ids s"
  by (simp add: unit_begin_def split: option.splits)

lemma ids_unit_end [simp]: "ids (unit_end u oc s) = ids s"
  by (simp add: unit_end_def split: option.splits)

lemma ids_callback [simp]: "ids (callback c u s) = ids s"
proof -
  have "ids (s1\<lparr> units := x \<rparr>) = ids s1" for s1 x by (simp add: ids_def)
  then show ?thesis
    by (simp add: callback_def Let_def split: option.splits unit_phase.splits)
qed


subsection \<open>The next address and the units in flight\<close>

lemma next_addr_assign_task [simp]: "next_addr (snd (assign_task c d rc s)) = next_addr s"
  by (simp add: assign_task_def Let_def)

lemma next_addr_shutdown_begin [simp]: "next_addr (shutdown_begin s) = next_addr s"
  by (simp add: shutdown_begin_def shutdown_agents_def shutdown_finish_def Let_def)

lemma next_addr_shutdown_resume [simp]: "next_addr (shutdown_resume i s) = next_addr s"
  by (simp add: shutdown_resume_def shutdown_after_units_def shutdown_agents_def shutdown_finish_def
        Let_def split: shutdown_phase.splits)

lemma next_addr_unit_begin [simp]: "next_addr (unit_begin u s) = next_addr s"
  by (simp add: unit_begin_def run_agent_task_begin_def cancel_unstarted_def split: option.splits)

lemma next_addr_receive_agent_update [simp]: "next_addr (receive_agent_update aid st s) = next_addr s"
  by (simp add: receive_agent_update_def split: option.splits)

lemma next_addr_run_agent_task_end [simp]: "next_addr (run_agent_task_end u oc s) = next_addr s"
  by (simp add: run_agent_task_end_def Let_def split: option.splits prod.splits)

lemma next_addr_unit_end [simp]: "next_addr (unit_end u oc s) = next_addr s"
  by (simp add: unit_end_def split: option.splits)

lemma next_addr_retry_logic [simp]: "next_addr (retry_logic c aid m s) = next_addr s"
  by (simp add: retry_logic_def assign_task_def Let_def)

lemma next_addr_handle_task_completion [simp]: "next_addr (handle_task_completion c u s) = next_addr s"
  by (simp add: handle_task_completion_def Let_def split: option.splits prod.splits)

lemma next_addr_callback [simp]: "next_addr (callback c u s) = next_addr s"
  by (simp add: callback_def Let_def split: option.splits unit_phase.splits)

lemma active_tasks_assign_task [simp]: "active_tasks (snd (assign_task c d rc s)) = active_tasks s"
  by (simp add: assign_task_def Let_def)

lemma active_tasks_shutdown_begin [simp]: "active_tasks (shutdown_begin s) = active_tasks s"
  by (simp add: shutdown_begin_def shutdown_agents_def shutdown_finish_def Let_def)


lemma active_tasks_unit_begin [simp]: "active_tasks (unit_begin u s) = active_tasks s"
  by (simp add: unit_begin_def run_agent_task_begin_def cancel_unstarted_def split: option.splits)

lemma active_tasks_receive_agent_update [simp]:
  "active_tasks (receive_agent_update aid st s) = active_tasks s"
  by (simp add: receive_agent_update_def split: option.splits)

lemma active_tasks_run_agent_task_end [simp]: "active_tasks (run_agent_task_end u oc s) = active_tasks s"
  by (simp add: run_agent_task_end_def Let_def split: option.splits prod.splits)

lemma active_tasks_unit_end [simp]: "active_tasks (unit_end u oc s) = active_tasks s"
  by (simp add: unit_end_def split: option.splits)

lemma active_tasks_retry_logic [simp]: "active_tasks (retry_logic c aid m s) = active_tasks s"
  by (simp add: retry_logic_def assign_task_def Let_def)




subsection \<open>What a launch does to the stores\<close>





subsection \<open>Two invariants of the stores\<close>







subsection \<open>A launch when the registry is full\<close>

lemma launch_one_at_capacity:
  assumes "task_queue s = t # q" and "max_concurrent_agents c \<le> int (length (agents s))"
  shows "launch_one c s =
           (None, snd (assign_task c (details t) (retry_count t)
                         (s\<lparr> task_queue := q, log := log s @ [LogLimitReached] \<rparr>)))"
  using assms by (simp add: launch_one_def Let_def create_agent_def)

lemma can_launch_after_capacity_failure:
  assumes "can_launch c s" and "max_concurrent_agents c \<le> int (length (agents s))"
  shows "can_launch c (snd (launch_one c s)) \<and>
         max_concurrent_agents c \<le> int (length (agents (snd (launch_one c s)))) \<and>
         fst (launch_one c s) = None"
proof -
  obtain t q where tq: "task_queue s = t # q"
    using assms(1) by (cases "task_queue s") (simp_all add: can_launch_def)
  show ?thesis
    using assms unfolding launch_one_at_capacity[OF tq assms(2)]
    by (simp add: can_launch_def assign_task_def Let_def)
qed

lemma launch_loop_out_of_fuel:
  "can_launch c s \<Longrightarrow> max_concurrent_agents c \<le> int (length (agents s)) \<Longrightarrow>
   launch_loop n c s = None"
proof (induction n arbitrary: s)
  case 0
  then show ?case by simp
next
  case (Suc n)
  obtain s' where l: "launch_one c s = (None, s')"
    using can_launch_after_capacity_failure[OF Suc.prems] by (cases "launch_one c s") simp
  have "can_launch c s'" "max_concurrent_agents c \<le> int (length (agents s'))"
    using can_launch_after_capacity_failure[OF Suc.prems] l by simp_all
  then have "launch_loop n c s' = None" by (rule Suc.IH)
  then show ?case using Suc.prems(1) l by simp
qed

subsection \<open>The registry in a run without shutdown\<close>










section \<open>The claims\<close>

subsection \<open>Concurrency bound\<close>

text \<open>
  C1. When the registry holds \<^verbatim>\<open>max_concurrent_agents\<close> agents or more, \<^verbatim>\<open>_create_agent\<close>
  returns \<^verbatim>\<open>None\<close> and registers nothing. Every event of the controller preserves
  \<^verbatim>\<open>len(agents) <= max_concurrent_agents\<close>, whatever the state it starts from, and so
  the bound holds after every sequence of events from the initial state, for a limit
  that is not negative.
\<close>

theorem concurrency_bound:
  "(max_concurrent_agents c \<le> int (length (agents s)) \<longrightarrow>
      fst (create_agent c h d s) = Inr None \<and>
      agents (snd (create_agent c h d s)) = agents s \<and>
      agent_objs (snd (create_agent c h d s)) = agent_objs s) \<and>
   (int (length (agents s)) \<le> max_concurrent_agents c \<longrightarrow>
      int (length (agents (step c ev s))) \<le> max_concurrent_agents c) \<and>
   (0 \<le> max_concurrent_agents c \<longrightarrow>
      int (length (agents (exec c evs init))) \<le> max_concurrent_agents c)"
proof (intro conjI impI)
  assume cap: "max_concurrent_agents c \<le> int (length (agents s))"
  show "fst (create_agent c h d s) = Inr None"
    using create_agent_at_capacity[OF cap] by simp
  show "agents (snd (create_agent c h d s)) = agents s"
    using create_agent_at_capacity[OF cap] by simp
  show "agent_objs (snd (create_agent c h d s)) = agent_objs s"
    using create_agent_at_capacity[OF cap] by simp
next
  assume "int (length (agents s)) \<le> max_concurrent_agents c"
  then show "int (length (agents (step c ev s))) \<le> max_concurrent_agents c"
    by (rule step_keeps_bound)
next
  assume "0 \<le> max_concurrent_agents c"
  then have "int (length (agents init)) \<le> max_concurrent_agents c"
    by (simp add: init_def)
  then show "int (length (agents (exec c evs init))) \<le> max_concurrent_agents c"
    by (rule exec_keeps_bound)
qed

text \<open>
  With one agent allowed: after the first task is launched the registry is full, the
  second \<^verbatim>\<open>_create_agent\<close> returns \<^verbatim>\<open>None\<close>, and the registry still has one entry
  after the second launch.
\<close>

theorem concurrency_bound_witness:
  "max_concurrent_agents cfg1 \<le> int (length (agents (exec cfg1 [Assign find_papers 0, Launch] init))) \<and>
   fst (create_agent cfg1 (PStr ''default'') scrape (exec cfg1 [Assign find_papers 0, Launch] init)) = Inr None \<and>
   0 \<le> max_concurrent_agents cfg1 \<and>
   int (length (agents (exec cfg1 [Assign find_papers 0, Launch, Assign scrape 0, Launch] init))) \<le> 1"
proof -
  let ?s = "exec cfg1 [Assign find_papers 0, Launch] init"
  have full: "max_concurrent_agents cfg1 \<le> int (length (agents ?s))" by code_simp
  have m: "max_concurrent_agents cfg1 = 1" by code_simp
  have nonneg: "0 \<le> max_concurrent_agents cfg1" by (simp add: m)
  note cb = concurrency_bound[of cfg1 ?s "PStr ''default''" scrape Launch
              "[Assign find_papers 0, Launch, Assign scrape 0, Launch]"]
  from cb full have "fst (create_agent cfg1 (PStr ''default'') scrape ?s) = Inr None" by blast
  moreover from cb nonneg
  have "int (length (agents (exec cfg1 [Assign find_papers 0, Launch, Assign scrape 0, Launch] init)))
          \<le> max_concurrent_agents cfg1" by blast
  ultimately show ?thesis using full nonneg m by simp
qed

subsection \<open>Queue order\<close>

text \<open>
  C7. \<^verbatim>\<open>assign_task\<close> with \<^verbatim>\<open>retry_count = 0\<close> puts the new task at the tail of the
  queue, and with \<^verbatim>\<open>retry_count > 0\<close> at the head, ahead of everything queued. Tasks
  are dequeued from the head: fresh tasks assigned in a row leave the queue in the
  order of their assignment (FIFO), and retries assigned in a row leave it in the
  reverse order (LIFO), all of them before the tasks that were queued already.
\<close>

theorem assign_task_queue_order:
  "(rc = 0 \<longrightarrow>
      task_queue (snd (assign_task c d rc s)) =
        task_queue s @ [\<lparr> task_id = uuid4 c (uuid_calls s), details = d, status = Pending,
                          retry_count = 0, error = None \<rparr>]) \<and>
   (rc > 0 \<longrightarrow>
      task_queue (snd (assign_task c d rc s)) =
        \<lparr> task_id = uuid4 c (uuid_calls s), details = d, status = Pending,
          retry_count = rc, error = None \<rparr> # task_queue s) \<and>
   map details (task_queue (exec c (map (\<lambda>d. Assign d 0) ds) s)) = map details (task_queue s) @ ds \<and>
   ((\<forall>p \<in> set ps. snd p > 0) \<longrightarrow>
      map details (task_queue (exec c (map (\<lambda>p. Assign (fst p) (snd p)) ps) s)) =
        rev (map fst ps) @ map details (task_queue s))"
proof (intro conjI impI)
  show "map details (task_queue (exec c (map (\<lambda>d. Assign d 0) ds) s)) = map details (task_queue s) @ ds"
    by (induction ds arbitrary: s) (simp_all add: assign_task_def Let_def)
next
  assume "\<forall>p \<in> set ps. snd p > 0"
  then show "map details (task_queue (exec c (map (\<lambda>p. Assign (fst p) (snd p)) ps) s)) =
               rev (map fst ps) @ map details (task_queue s)"
    by (induction ps arbitrary: s) (simp_all add: assign_task_def Let_def)
qed (simp_all add: assign_task_def Let_def)

text \<open>
  Two fresh tasks, then two retries: the queue holds the second retry, the first
  retry, and then the fresh tasks in the order they came.
\<close>

theorem assign_task_queue_order_witness:
  "(0::int) = 0 \<and> (1::int) > 0 \<and> snd (find_papers, 1::int) > 0 \<and> snd (scrape, 2::int) > 0 \<and>
   map details (task_queue (exec cfg1
      (map (\<lambda>p. Assign (fst p) (snd p)) [(find_papers, 1::int), (scrape, 2)])
      (exec cfg1 (map (\<lambda>d. Assign d 0) [scrape, find_papers]) init))) =
     [scrape, find_papers, scrape, find_papers] \<and>
   task_queue (snd (assign_task cfg1 scrape 1 init)) =
     [\<lparr> task_id = ''3f2b8c1e-0d4a-4e6f-9a7b-5c1d2e3f4a5b'', details = scrape, status = Pending,
        retry_count = 1, error = None \<rparr>]"
proof -
  let ?s = "exec cfg1 (map (\<lambda>d. Assign d 0) [scrape, find_papers]) init"
  have r: "\<forall>p \<in> set [(find_papers, 1::int), (scrape, 2)]. snd p > 0" by simp
  have q0: "map details (task_queue ?s) = map details (task_queue init) @ [scrape, find_papers]"
    using assign_task_queue_order[of 0 cfg1 scrape init "[scrape, find_papers]" "[]"] by blast
  have "map details (task_queue (exec cfg1
          (map (\<lambda>p. Assign (fst p) (snd p)) [(find_papers, 1::int), (scrape, 2)]) ?s)) =
        rev (map fst [(find_papers, 1::int), (scrape, 2)]) @ map details (task_queue ?s)"
    using assign_task_queue_order[of 0 cfg1 scrape ?s "[]" "[(find_papers, 1), (scrape, 2)]"] r by blast
  moreover have "task_queue (snd (assign_task cfg1 scrape 1 init)) =
      \<lparr> task_id = uuid4 cfg1 (uuid_calls init), details = scrape, status = Pending,
        retry_count = 1, error = None \<rparr> # task_queue init"
    using assign_task_queue_order[of 1 cfg1 scrape init "[]" "[]"] by simp
  moreover have "uuid4 cfg1 (uuid_calls init) = ''3f2b8c1e-0d4a-4e6f-9a7b-5c1d2e3f4a5b''"
    by (simp add: cfg1_def init_def uuid_seq_def some_uuids_def)
  ultimately show ?thesis using q0 by (simp add: init_def)
qed

subsection \<open>Routing\<close>

lemma has_field_dict_has: "dict_has k task_info = has_field k task_info"
  by (simp add: dict_has_def has_field_def map_of_eq_None_iff)

lemma any_in_lower_str: "any_in_lower kws (PStr d) = Inr (list_ex (\<lambda>kw. sublist kw (lower d)) kws)"
  by (induction kws) (simp_all add: in_lower_def split: bool.splits)

lemma description_has_contains:
  "description_is_str task_info \<Longrightarrow>
   description_has kws task_info = Inr (description_contains kws task_info)"
  by (simp add: description_has_def description_contains_def description_is_str_def dict_get_def
        any_in_lower_str split: option.splits pyval.splits)

lemma class_for_effective_agent_type:
  assumes "description_is_str task_info"
  shows "map_sum id class_for (effective_agent_type (PStr ''default'') task_info) =
           Inr (inferred_class task_info)"
  by (simp add: effective_agent_type_def inferred_class_def has_field_dict_has
        description_has_contains[OF assms] class_for_def)

text \<open>
  C8. With the type hint \<^verbatim>\<open>"default"\<close> and room in the registry, \<^verbatim>\<open>_create_agent\<close>
  constructs and registers an agent whose class is given by the ordered rules: a
  \<^verbatim>\<open>url\<close> field selects the browser agent; else a description containing "create" the
  tool creator; else a \<^verbatim>\<open>code\<close> or \<^verbatim>\<open>code_key\<close> field the tool executor; else a
  description containing "find", "research" or "gather" the info hunter; otherwise the
  generic \<^verbatim>\<open>Agent\<close>. A description is a string here, and containment is tested on its
  lower-cased text, as the code does.
\<close>

theorem default_hint_routing:
  assumes "int (length (agents s)) < max_concurrent_agents c"
    and "description_is_str task_info"
  shows "\<exists>a aid s'. create_agent c (PStr ''default'') task_info s = (Inr (Some (a, aid)), s') \<and>
           dict_get (agents s') aid = Some a \<and>
           map_option agent_class (dict_get (agent_objs s') a) = Some (inferred_class task_info)"
proof -
  obtain eff where eff: "effective_agent_type (PStr ''default'') task_info = Inr eff"
    and cl: "class_for eff = inferred_class task_info"
    using class_for_effective_agent_type[OF assms(2)]
    by (cases "effective_agent_type (PStr ''default'') task_info") auto
  show ?thesis
    using assms(1) eff cl by (simp add: create_agent_def Let_def new_agent_def dict_get_dict_set)
qed

text \<open>The command-line task "Find papers on X" goes to an info hunter.\<close>

theorem default_hint_routing_witness:
  "int (length (agents init)) < max_concurrent_agents cfg1 \<and> description_is_str find_papers \<and>
   (\<exists>a aid s'. create_agent cfg1 (PStr ''default'') find_papers init = (Inr (Some (a, aid)), s') \<and>
      dict_get (agents s') aid = Some a \<and>
      map_option agent_class (dict_get (agent_objs s') a) = Some InfoHunterAgent)"
proof -
  have h1: "int (length (agents init)) < max_concurrent_agents cfg1" by code_simp
  have h2: "description_is_str find_papers" by code_simp
  have cl: "inferred_class find_papers = InfoHunterAgent" by code_simp
  show ?thesis using default_hint_routing[OF h1 h2] h1 h2 unfolding cl by blast
qed

subsection \<open>Retry bound\<close>


lemma no_giving_up_in_retry_log: "filter is_giving_up (retry_log aid (m # ts)) = []"
  by (induction ts arbitrary: m) (simp_all add: is_giving_up_def)



subsection \<open>Retry identity\<close>

text \<open>
  C3. Every retry is a new task record: its id is the next value drawn from
  \<^verbatim>\<open>uuid.uuid4()\<close>, its details are those of the failed attempt, and its retry count is
  one more. Along the attempts of a task that fails every time, the record queued as
  the N-th retry has retry count N. When the UUIDs drawn are pairwise distinct (what
  \<^verbatim>\<open>uuid4\<close> provides) and the first attempt's id was drawn earlier, no retry has the
  id of a previous attempt.
\<close>

theorem retry_identity:
  "(retry_count m < max_task_retries c \<and> 0 \<le> retry_count m \<longrightarrow>
      task_queue (retry_logic c aid m s) =
        \<lparr> task_id = uuid4 c (uuid_calls s), details = details m, status = Pending,
          retry_count = retry_count m + 1, error = None \<rparr> # task_queue s \<and>
      uuid_calls (retry_logic c aid m s) = Suc (uuid_calls s)) \<and>
   (0 \<le> max_task_retries c \<and> retry_count m = 0 \<and> nat (max_task_retries c) < n \<and>
    map_option fst (retry_chain n c aid m s) = Some ts \<longrightarrow>
      (\<forall>N. 1 \<le> N \<and> N \<le> length ts \<longrightarrow>
         retry_count (ts ! (N - 1)) = int N \<and>
         details (ts ! (N - 1)) = details m \<and>
         task_id (ts ! (N - 1)) = uuid4 c (uuid_calls s + (N - 1))) \<and>
      (distinct (map (uuid4 c) [0..<uuid_calls s + length ts]) \<and>
       task_id m \<in> set (map (uuid4 c) [0..<uuid_calls s]) \<longrightarrow>
         distinct (map task_id (m # ts))))"
proof (intro conjI impI allI)
  assume h: "retry_count m < max_task_retries c \<and> 0 \<le> retry_count m"
  then show "task_queue (retry_logic c aid m s) =
        \<lparr> task_id = uuid4 c (uuid_calls s), details = details m, status = Pending,
          retry_count = retry_count m + 1, error = None \<rparr> # task_queue s"
    by (simp add: retry_logic_queue_retry)
  from h show "uuid_calls (retry_logic c aid m s) = Suc (uuid_calls s)"
    by (simp add: retry_logic_uuid_calls)
next
  assume h: "0 \<le> max_task_retries c \<and> retry_count m = 0 \<and> nat (max_task_retries c) < n \<and>
    map_option fst (retry_chain n c aid m s) = Some ts"
  then have p: "0 \<le> retry_count m" "retry_count m \<le> max_task_retries c"
    "n > nat (max_task_retries c - retry_count m)" by simp_all
  from retry_chain_general[OF p, of aid s]
  obtain ts' sf where ch: "retry_chain n c aid m s = Some (ts', sf)"
    and el': "\<forall>i < length ts'. retry_count (ts' ! i) = retry_count m + 1 + int i \<and>
                            details (ts' ! i) = details m \<and>
                            status (ts' ! i) = Pending \<and>
                            task_id (ts' ! i) = uuid4 c (uuid_calls s + i)"
    by blast
  have "ts' = ts" using h ch by simp
  with el'
  have el: "\<forall>i < length ts. retry_count (ts ! i) = retry_count m + 1 + int i \<and>
                            details (ts ! i) = details m \<and>
                            status (ts ! i) = Pending \<and>
                            task_id (ts ! i) = uuid4 c (uuid_calls s + i)"
    by simp
  {
    fix N assume N: "1 \<le> N \<and> N \<le> length ts"
    then have "retry_count (ts ! (N - 1)) = int N \<and> details (ts ! (N - 1)) = details m \<and>
        task_id (ts ! (N - 1)) = uuid4 c (uuid_calls s + (N - 1))"
      using nth_retry[OF el, of N] h by blast
    then show "retry_count (ts ! (N - 1)) = int N" "details (ts ! (N - 1)) = details m"
        "task_id (ts ! (N - 1)) = uuid4 c (uuid_calls s + (N - 1))"
      by blast+
  }
  assume d: "distinct (map (uuid4 c) [0..<uuid_calls s + length ts]) \<and>
       task_id m \<in> set (map (uuid4 c) [0..<uuid_calls s])"
  show "distinct (map task_id (m # ts))"
    using distinct_attempt_ids[OF retry_ids_are_the_next_uuids[OF el]] d by blast
qed

text \<open>
  With two retries allowed: the first retry has count 1 and the second count 2, both
  keep the details, and the three ids differ.
\<close>

theorem retry_identity_witness:
  "retry_count first_attempt < max_task_retries cfg2 \<and> 0 \<le> retry_count first_attempt \<and>
   0 \<le> max_task_retries cfg2 \<and> retry_count first_attempt = 0 \<and> nat (max_task_retries cfg2) < 3 \<and>
   map_option fst (retry_chain 3 cfg2 ''default-7a9c4d2f'' first_attempt (exec cfg2 first_failure init))
     = Some two_retries \<and>
   (1::nat) \<le> 2 \<and> 2 \<le> length two_retries \<and>
   retry_count (two_retries ! (2 - 1)) = int 2 \<and>
   details (two_retries ! (2 - 1)) = details first_attempt \<and>
   task_id (two_retries ! (2 - 1)) = ''deadbeef-1111-4222-8333-444444444444'' \<and>
   distinct (map (uuid4 cfg2) [0..<uuid_calls (exec cfg2 first_failure init) + length two_retries]) \<and>
   task_id first_attempt \<in> set (map (uuid4 cfg2) [0..<uuid_calls (exec cfg2 first_failure init)]) \<and>
   distinct (map task_id (first_attempt # two_retries))"
proof -
  let ?s = "exec cfg2 first_failure init"
  let ?aid = "''default-7a9c4d2f''"
  have h1: "retry_count first_attempt < max_task_retries cfg2 \<and> 0 \<le> retry_count first_attempt"
    by code_simp
  have h2: "0 \<le> max_task_retries cfg2 \<and> retry_count first_attempt = 0 \<and> nat (max_task_retries cfg2) < 3"
    by code_simp
  have h3: "map_option fst (retry_chain 3 cfg2 ?aid first_attempt ?s) = Some two_retries"
    by code_simp
  have len: "(1::nat) \<le> 2 \<and> 2 \<le> length two_retries"
    by code_simp
  have h4: "distinct (map (uuid4 cfg2) [0..<uuid_calls ?s + length two_retries])" by code_simp
  have h5: "task_id first_attempt \<in> set (map (uuid4 cfg2) [0..<uuid_calls ?s])" by code_simp
  note ri = retry_identity[of first_attempt cfg2 ?aid ?s 3 two_retries]
  from ri h2 h3
  have every: "\<forall>N. 1 \<le> N \<and> N \<le> length two_retries \<longrightarrow>
         retry_count (two_retries ! (N - 1)) = int N \<and>
         details (two_retries ! (N - 1)) = details first_attempt \<and>
         task_id (two_retries ! (N - 1)) = uuid4 cfg2 (uuid_calls ?s + (N - 1))"
    by blast
  from every len
  have n2: "retry_count (two_retries ! (2 - 1)) = int 2 \<and>
            details (two_retries ! (2 - 1)) = details first_attempt \<and>
            task_id (two_retries ! (2 - 1)) = uuid4 cfg2 (uuid_calls ?s + (2 - 1))"
    by blast
  have u: "uuid4 cfg2 (uuid_calls ?s + (2 - 1)) = ''deadbeef-1111-4222-8333-444444444444''"
    by code_simp
  from ri h2 h3 h4 h5
  have d: "distinct (map task_id (first_attempt # two_retries))"
    by blast
  show ?thesis using h1 h2 h3 len n2 u d h4 h5 by simp
qed

subsection \<open>The launch loop when the registry is full\<close>

text \<open>
  C6. What the code does when routing fails for lack of capacity inside the launch
  loop: the dequeued task is queued again as a new record with the same details and
  the same retry count (at the head when that count is positive, at the tail
  otherwise), no exception leaves the pass, and the condition of the loop holds again.
  The registry is still full, so every further pass fails in the same way: the loop
  is not left, whatever the fuel.
\<close>

theorem launch_loop_spins_at_capacity:
  assumes "can_launch c s" and "max_concurrent_agents c \<le> int (length (agents s))"
  shows "fst (launch_one c s) = None \<and>
         task_queue (snd (launch_one c s)) =
           (let t = hd (task_queue s);
                t' = \<lparr> task_id = uuid4 c (uuid_calls s), details = details t, status = Pending,
                       retry_count = retry_count t, error = None \<rparr>
            in if retry_count t > 0 then t' # tl (task_queue s) else tl (task_queue s) @ [t']) \<and>
         can_launch c (snd (launch_one c s)) \<and>
         (\<forall>n. launch_loop n c s = None)"
proof -
  obtain t q where tq: "task_queue s = t # q"
    using assms(1) by (cases "task_queue s") (simp_all add: can_launch_def)
  have "task_queue (snd (launch_one c s)) =
           (let t = hd (task_queue s);
                t' = \<lparr> task_id = uuid4 c (uuid_calls s), details = details t, status = Pending,
                       retry_count = retry_count t, error = None \<rparr>
            in if retry_count t > 0 then t' # tl (task_queue s) else tl (task_queue s) @ [t'])"
    unfolding launch_one_at_capacity[OF tq assms(2)]
    using tq by (simp add: assign_task_def Let_def)
  then show ?thesis
    using can_launch_after_capacity_failure[OF assms] launch_loop_out_of_fuel[OF assms]
    by blast
qed

text \<open>
  One agent allowed and two tasks assigned: the first task is launched and finishes,
  its callback runs, and the launch loop then never gets past the second task.
\<close>

theorem launch_loop_spins_at_capacity_witness:
  "can_launch cfg1 (exec cfg1 one_done_one_waiting init) \<and>
   max_concurrent_agents cfg1 \<le> int (length (agents (exec cfg1 one_done_one_waiting init))) \<and>
   active_tasks (exec cfg1 one_done_one_waiting init) = [] \<and>
   map retry_count (task_queue (exec cfg1 one_done_one_waiting init)) = [0] \<and>
   fst (launch_one cfg1 (exec cfg1 one_done_one_waiting init)) = None \<and>
   map retry_count (task_queue (snd (launch_one cfg1 (exec cfg1 one_done_one_waiting init)))) = [0] \<and>
   can_launch cfg1 (snd (launch_one cfg1 (exec cfg1 one_done_one_waiting init))) \<and>
   launch_loop 1000 cfg1 (exec cfg1 one_done_one_waiting init) = None"
proof -
  let ?s = "exec cfg1 one_done_one_waiting init"
  have h1: "can_launch cfg1 ?s" by code_simp
  have h2: "max_concurrent_agents cfg1 \<le> int (length (agents ?s))" by code_simp
  have a: "active_tasks ?s = []" by code_simp
  have q: "map retry_count (task_queue ?s) = [0]" by code_simp
  have q': "map retry_count (task_queue (snd (launch_one cfg1 ?s))) = [0]" by code_simp
  note sp = launch_loop_spins_at_capacity[OF h1 h2]
  from sp have "fst (launch_one cfg1 ?s) = None" by blast
  moreover from sp have "can_launch cfg1 (snd (launch_one cfg1 ?s))" by blast
  moreover from sp have "launch_loop 1000 cfg1 ?s = None" by blast
  ultimately show ?thesis using h1 h2 a q q' by blast
qed

subsection \<open>Cancellation\<close>







subsection \<open>The registry is never released\<close>




subsection \<open>History bound\<close>




end
